theory Spec2Isabelle
  imports Complex_Main "HOL-Library.Sublist"
begin

section \<open>Data model of the PhotoGrid component\<close>

text \<open>
  The component keeps nine image slots in React state, creates and revokes object URLs
  (the preview handles) through the browser's \<^verbatim>\<open>URL\<close> interface, reports to the user
  through toasts and composes the export on a canvas. Everything the handlers do beyond
  computing a value is made explicit here: the browser's registry of object URLs, the
  list of toasts shown and the list of canvas and DOM operations issued are fields of
  one record that every handler takes and returns.
\<close>

text \<open>The DOM \<^verbatim>\<open>File\<close> object: the handlers read only its declared media type.\<close>

record File =
  name :: string
  type :: string

text \<open>
  An object URL (\<^verbatim>\<open>blob:...\<close>) is identified by its serial number: the browser hands
  out a new one at every call of \<^verbatim>\<open>URL.createObjectURL\<close>.
\<close>

type_synonym url = nat

text \<open>\<^verbatim>\<open>interface ImageSlot { id: number; file: File | null; preview: string | null }\<close>\<close>

record ImageSlot =
  id_slot :: int
  file_slot :: "File option"
  preview :: "url option"

datatype variant = Default | Destructive

text \<open>
  A toast carries the keys handed to the translation function \<^verbatim>\<open>t\<close>; the description
  of the upload toast has a number between two translated parts.
\<close>

datatype description = Text string | Counted string int string

record toast =
  title :: string
  description :: description
  variant :: variant

text \<open>
  Canvas and DOM operations in the order they are issued. Coordinates are JavaScript
  numbers, modelled as exact reals.
\<close>

datatype dom_op =
    CreateCanvas
  | GetContext
  | SetWidth int
  | SetHeight int
  | FillStyle string
  | FillRect real real real real
  | LoadImage url
  | Save
  | BeginPath
  | Rect real real real real
  | Clip
  | DrawImage url real real real real
  | Restore
  | ToBlob string
  | AnchorDownload url int

record PhotoGrid =
  images :: "ImageSlot list"
  live_urls :: "url list"
  next_url :: url
  revoked :: "url list"
  toasts :: "toast list"
  dom_ops :: "dom_op list"

text \<open>
  What the browser decides during an export: whether a 2d context is available, the
  natural size of the image behind an object URL (\<open>None\<close> when its \<^verbatim>\<open>onload\<close> never
  fires), whether \<^verbatim>\<open>toBlob\<close> yields a blob, and the clock.
\<close>

record browser =
  has_context :: bool
  natural_size :: "url \<Rightarrow> (nat \<times> nat) option"
  encodes :: bool
  now :: int

section \<open>Browser interfaces\<close>

text \<open>\<^verbatim>\<open>URL.createObjectURL(file)\<close>: a fresh URL, live until revoked.\<close>

definition createObjectURL :: "PhotoGrid \<Rightarrow> url \<times> PhotoGrid" where
  "createObjectURL e =
     (next_url e, e\<lparr>live_urls := live_urls e @ [next_url e], next_url := Suc (next_url e)\<rparr>)"

text \<open>
  \<^verbatim>\<open>URL.revokeObjectURL(u)\<close>: the URL is no longer live; every call is logged in
  \<open>revoked\<close>. Revoking a URL that is not live changes nothing else.
\<close>

definition revokeObjectURL :: "url \<Rightarrow> PhotoGrid \<Rightarrow> PhotoGrid" where
  "revokeObjectURL u e = e\<lparr>live_urls := removeAll u (live_urls e), revoked := revoked e @ [u]\<rparr>"

definition show_toast :: "toast \<Rightarrow> PhotoGrid \<Rightarrow> PhotoGrid" where
  "show_toast t e = e\<lparr>toasts := toasts e @ [t]\<rparr>"

text \<open>
  \<^verbatim>\<open>arr[i] = v\<close> on a JavaScript array. Inside the index range the element is replaced.
  A negative index names an ordinary property, so the elements stay as they are. The only
  write of the component that is not bounded by a read of the same element is guarded by
  \<^verbatim>\<open>targetIndex < 9\<close> on an array of length 9, so a write at or beyond the length,
  where JavaScript would extend the array, does not arise; the model leaves the list as it
  is there.
\<close>

definition array_set :: "'a list \<Rightarrow> int \<Rightarrow> 'a \<Rightarrow> 'a list" where
  "array_set xs i v = (if 0 \<le> i \<and> i < int (length xs) then xs[nat i := v] else xs)"

text \<open>\<^verbatim>\<open>Array.prototype.findIndex\<close>: the first index whose element passes, or -1.\<close>

fun findIndex_from :: "('a \<Rightarrow> bool) \<Rightarrow> 'a list \<Rightarrow> int \<Rightarrow> int" where
  "findIndex_from P [] k = -1"
| "findIndex_from P (x # xs) k = (if P x then k else findIndex_from P xs (k + 1))"

definition findIndex :: "('a \<Rightarrow> bool) \<Rightarrow> 'a list \<Rightarrow> int" where
  "findIndex P xs = findIndex_from P xs 0"

section \<open>The slot store\<close>

text \<open>\<^verbatim>\<open>Array.from({ length: 9 }, (_, i) => ({ id: i, file: null, preview: null }))\<close>\<close>

definition empty_slot :: "int \<Rightarrow> ImageSlot" where
  "empty_slot i = \<lparr>id_slot = i, file_slot = None, preview = None\<rparr>"

definition initial_images :: "ImageSlot list" where
  "initial_images = map (\<lambda>i. empty_slot (int i)) [0..<9]"

definition initial :: PhotoGrid where
  "initial = \<lparr>images = initial_images, live_urls = [], next_url = 0, revoked = [],
              toasts = [], dom_ops = []\<rparr>"

definition is_image :: "File \<Rightarrow> bool" where
  "is_image f = prefix ''image/'' (type f)"

definition fileFormatError :: toast where
  "fileFormatError =
     \<lparr>title = ''fileFormatError'', description = Text ''fileFormatErrorDesc'',
      variant = Destructive\<rparr>"

definition gridFull :: toast where
  "gridFull = \<lparr>title = ''gridFull'', description = Text ''gridFullDesc'', variant = Destructive\<rparr>"

definition uploadSuccess :: "int \<Rightarrow> toast" where
  "uploadSuccess n =
     \<lparr>title = ''uploadSuccess'',
      description = Counted ''uploadSuccessDesc'' n ''uploadSuccessDesc2'', variant = Default\<rparr>"

definition gridReset :: toast where
  "gridReset = \<lparr>title = ''gridReset'', description = Text ''gridResetDesc'', variant = Default\<rparr>"

definition noImages :: toast where
  "noImages = \<lparr>title = ''noImages'', description = Text ''noImagesDesc'', variant = Destructive\<rparr>"

definition downloadSuccess :: toast where
  "downloadSuccess =
     \<lparr>title = ''downloadSuccess'', description = Text ''downloadSuccessDesc'',
      variant = Default\<rparr>"

text \<open>
  The body of \<^verbatim>\<open>imageFiles.forEach((file, index) => ...)\<close> in \<^verbatim>\<open>handleFileSelect\<close>:
  \<open>index\<close> counts the files seen so far, \<open>newImages\<close> is the copy being filled.
\<close>

fun placeFiles :: "int \<Rightarrow> File list \<Rightarrow> int \<Rightarrow> ImageSlot list \<times> PhotoGrid
    \<Rightarrow> ImageSlot list \<times> PhotoGrid" where
  "placeFiles startIndex [] index (newImages, e) = (newImages, e)"
| "placeFiles startIndex (f # rest) index (newImages, e) =
     (let targetIndex = startIndex + index in
      if targetIndex < 9 then
        (let (p, e') = createObjectURL e in
         placeFiles startIndex rest (index + 1)
           (array_set newImages targetIndex \<lparr>id_slot = targetIndex, file_slot = Some f, preview = Some p\<rparr>,
            e'))
      else placeFiles startIndex rest (index + 1) (newImages, e))"

definition handleFileSelect :: "File list \<Rightarrow> int option \<Rightarrow> PhotoGrid \<Rightarrow> PhotoGrid" where
  "handleFileSelect files slotId e =
     (let fileArray = files in
      if length fileArray = 0 then e
      else
        (let imageFiles = filter is_image fileArray in
         if length imageFiles = 0 then show_toast fileFormatError e
         else
           (let startIndex =
                  (case slotId of
                     Some s \<Rightarrow> s
                   | None \<Rightarrow> findIndex (\<lambda>img. file_slot img = None) (images e)) in
            if startIndex = -1 then show_toast gridFull e
            else
              (let (newImages, e') = placeFiles startIndex imageFiles 0 (images e, e) in
               show_toast (uploadSuccess (min (int (length imageFiles)) (9 - startIndex)))
                 (e'\<lparr>images := newImages\<rparr>)))))"

text \<open>
  \<^verbatim>\<open>removeImage\<close> reads \<^verbatim>\<open>newImages[slotId].preview\<close>: outside the index range the
  element is \<^verbatim>\<open>undefined\<close> and the read throws a TypeError, before anything is changed.
\<close>

datatype error = TypeError

definition removeImage :: "int \<Rightarrow> PhotoGrid \<Rightarrow> error + PhotoGrid" where
  "removeImage slotId e =
     (let newImages = images e in
      if \<not> (0 \<le> slotId \<and> slotId < int (length newImages)) then Inl TypeError
      else
        (let e' = (case preview (newImages ! nat slotId) of
                     Some p \<Rightarrow> revokeObjectURL p e
                   | None \<Rightarrow> e) in
         Inr (e'\<lparr>images := array_set newImages slotId (empty_slot slotId)\<rparr>)))"

text \<open>The body of \<^verbatim>\<open>images.forEach(img => ...)\<close> in \<^verbatim>\<open>resetGrid\<close>.\<close>

fun revokeAll :: "ImageSlot list \<Rightarrow> PhotoGrid \<Rightarrow> PhotoGrid" where
  "revokeAll [] e = e"
| "revokeAll (img # rest) e =
     revokeAll rest (case preview img of Some p \<Rightarrow> revokeObjectURL p e | None \<Rightarrow> e)"

definition resetGrid :: "PhotoGrid \<Rightarrow> PhotoGrid" where
  "resetGrid e = show_toast gridReset ((revokeAll (images e) e)\<lparr>images := initial_images\<rparr>)"

section \<open>The grid compositor\<close>

definition gridSize :: nat where "gridSize = 3"
definition cellSize :: nat where "cellSize = 300"
definition gap :: nat where "gap = 10"

record fit =
  drawWidth :: real
  drawHeight :: real
  offsetX :: real
  offsetY :: real

text \<open>
  The cover-fit computation of the \<^verbatim>\<open>onload\<close> callback, on the natural width and height
  of the decoded image. With a width or a height of 0 the JavaScript division yields
  \<^verbatim>\<open>Infinity\<close> or \<^verbatim>\<open>NaN\<close> and one of the draw dimensions is not finite: that is
  \<open>None\<close> here (HOL's \<open>x / 0 = 0\<close> would hide it).
\<close>

definition cover_fit :: "nat \<Rightarrow> nat \<Rightarrow> fit option" where
  "cover_fit w h =
     (if w = 0 \<or> h = 0 then None
      else
        (let aspectRatio = real w / real h in
         if aspectRatio > 1 then
           Some \<lparr>drawWidth = real cellSize * aspectRatio, drawHeight = real cellSize,
                 offsetX = - (real cellSize * aspectRatio - real cellSize) / 2, offsetY = 0\<rparr>
         else
           Some \<lparr>drawWidth = real cellSize, drawHeight = real cellSize / aspectRatio,
                 offsetX = 0, offsetY = - (real cellSize / aspectRatio - real cellSize) / 2\<rparr>))"

text \<open>
  The canvas operations of one \<^verbatim>\<open>onload\<close> callback. \<^verbatim>\<open>drawImage\<close> with an argument
  that is not finite draws nothing.
\<close>

definition draw_cell :: "nat \<Rightarrow> url \<Rightarrow> nat \<times> nat \<Rightarrow> dom_op list" where
  "draw_cell index u dims =
     (let row = index div gridSize;
          col = index mod gridSize;
          x = real (col * (cellSize + gap));
          y = real (row * (cellSize + gap)) in
      [Save, BeginPath, Rect x y (real cellSize) (real cellSize), Clip]
      @ (case cover_fit (fst dims) (snd dims) of
           None \<Rightarrow> []
         | Some f \<Rightarrow> [DrawImage u (x + offsetX f) (y + offsetY f) (drawWidth f) (drawHeight f)])
      @ [Restore])"

text \<open>
  One promise of \<^verbatim>\<open>images.map((img, index) => new Promise(...))\<close>: the decode started
  when the promise is created, and the operations of its callback (\<open>None\<close> when the
  promise never resolves).
\<close>

definition cell_started :: "ImageSlot \<Rightarrow> dom_op list" where
  "cell_started img = (case preview img of None \<Rightarrow> [] | Some u \<Rightarrow> [LoadImage u])"

definition cell_loaded :: "browser \<Rightarrow> nat \<times> ImageSlot \<Rightarrow> dom_op list option" where
  "cell_loaded b p =
     (case preview (snd p) of
        None \<Rightarrow> Some []
      | Some u \<Rightarrow>
          (case natural_size b u of
             None \<Rightarrow> None
           | Some dims \<Rightarrow> Some (draw_cell (fst p) u dims)))"

text \<open>
  \<^verbatim>\<open>downloadGrid\<close>. The callbacks run one at a time in the order the images finish
  loading; the model runs them in index order. When a promise never resolves,
  \<^verbatim>\<open>await Promise.all\<close> never returns and nothing after it happens.
\<close>

definition downloadGrid :: "browser \<Rightarrow> PhotoGrid \<Rightarrow> PhotoGrid" where
  "downloadGrid b e =
     (let filledImages = filter (\<lambda>img. preview img \<noteq> None) (images e) in
      if length filledImages = 0 then show_toast noImages e
      else
        (let e1 = e\<lparr>dom_ops := dom_ops e @ [CreateCanvas, GetContext]\<rparr> in
         if \<not> has_context b then e1
         else
           (let side = int (gridSize * cellSize + (gridSize - 1) * gap);
                cells = map (cell_loaded b) (enumerate 0 (images e));
                e2 = e1\<lparr>dom_ops := dom_ops e1
                        @ [SetWidth side, SetHeight side, FillStyle ''#ffffff'',
                           FillRect 0 0 (real_of_int side) (real_of_int side)]
                        @ concat (map cell_started (images e))
                        @ concat (map (\<lambda>c. case c of None \<Rightarrow> [] | Some ops \<Rightarrow> ops) cells)\<rparr> in
            if \<not> list_all (\<lambda>c. c \<noteq> None) cells then e2
            else
              (let e3 = e2\<lparr>dom_ops := dom_ops e2 @ [ToBlob ''image/png'']\<rparr> in
               if \<not> encodes b then e3
               else
                 (let (u, e4) = createObjectURL e3;
                      e5 = e4\<lparr>dom_ops := dom_ops e4 @ [AnchorDownload u (now b)]\<rparr> in
                  show_toast downloadSuccess (revokeObjectURL u e5))))))"

section \<open>Well-formed stores\<close>

text \<open>
  The store the handlers keep: nine slots, each carrying its own index, a file exactly
  when it has a preview.
\<close>

definition wf_slot :: "nat \<times> ImageSlot \<Rightarrow> bool" where
  "wf_slot p = (id_slot (snd p) = int (fst p) \<and> ((file_slot (snd p) = None) = (preview (snd p) = None)))"

definition wf_store :: "ImageSlot list \<Rightarrow> bool" where
  "wf_store imgs = (length imgs = 9 \<and> list_all wf_slot (enumerate 0 imgs))"

section \<open>Sample files and stores\<close>

definition png :: "string \<Rightarrow> File" where
  "png n = \<lparr>name = n, type = ''image/png''\<rparr>"

definition plain :: "string \<Rightarrow> File" where
  "plain n = \<lparr>name = n, type = ''text/plain''\<rparr>"

definition full_store :: PhotoGrid where
  "full_store = handleFileSelect (replicate 9 (png ''p'')) None initial"

definition one_in_first :: PhotoGrid where
  "one_in_first = handleFileSelect [png ''a''] (Some 0) initial"

definition first_replaced :: PhotoGrid where
  "first_replaced = handleFileSelect [png ''b''] (Some 0) one_in_first"

definition two_filled :: PhotoGrid where
  "two_filled = handleFileSelect [png ''a'', png ''b''] None initial"

definition gap_at_first :: PhotoGrid where
  "gap_at_first = (case removeImage 0 two_filled of Inr e \<Rightarrow> e | Inl err \<Rightarrow> two_filled)"

definition gap_refilled :: PhotoGrid where
  "gap_refilled = handleFileSelect [png ''c'', png ''d''] None gap_at_first"

definition after_reset :: PhotoGrid where
  "after_reset = resetGrid first_replaced"

definition loads_all :: browser where
  "loads_all = \<lparr>has_context = True, natural_size = (\<lambda>u. Some (600, 300)), encodes = True, now = 0\<rparr>"

section \<open>Auxiliary facts about the array operations and the placement loop\<close>

lemma findIndex_from_range:
  "findIndex_from P xs k = -1 \<or> (k \<le> findIndex_from P xs k \<and> findIndex_from P xs k < k + int (length xs))"
  by (induction xs arbitrary: k) (auto, force+)

lemma findIndex_from_none:
  "0 \<le> k \<Longrightarrow> (findIndex_from P xs k = -1) = (\<forall>x\<in>set xs. \<not> P x)"
proof (induction xs arbitrary: k)
  case Nil
  then show ?case by simp
next
  case (Cons x xs)
  then show ?case by auto
qed

lemma findIndex_from_first:
  "0 \<le> k \<Longrightarrow> findIndex_from P xs k \<noteq> -1 \<Longrightarrow>
     P (xs ! nat (findIndex_from P xs k - k)) \<and>
     (\<forall>j < nat (findIndex_from P xs k - k). \<not> P (xs ! j))"
proof (induction xs arbitrary: k)
  case Nil
  then show ?case by simp
next
  case (Cons x xs)
  show ?case
  proof (cases "P x")
    case True
    then show ?thesis by simp
  next
    case False
    let ?r = "findIndex_from P xs (k + 1)"
    from Cons.prems False have r: "?r \<noteq> -1" by simp
    from Cons.prems have k1: "0 \<le> k + 1" by simp
    from findIndex_from_range [of P xs "k + 1"] r have rng: "k + 1 \<le> ?r" by auto
    from Cons.IH [OF k1 r] have ih: "P (xs ! nat (?r - (k + 1)))"
      "\<forall>j < nat (?r - (k + 1)). \<not> P (xs ! j)" by auto
    have eq: "nat (?r - k) = Suc (nat (?r - (k + 1)))" using rng by simp
    show ?thesis using False ih eq by (auto simp: nth_Cons')
  qed
qed

lemma placeFiles_env:
  "0 \<le> s + idx \<Longrightarrow>
   snd (placeFiles s fs idx (imgs, e)) =
     e\<lparr>live_urls := live_urls e @ [next_url e ..< next_url e + min (length fs) (9 - nat (s + idx))],
       next_url := next_url e + min (length fs) (9 - nat (s + idx))\<rparr>"
proof (induction fs arbitrary: idx imgs e)
  case Nil
  then show ?case by simp
next
  case (Cons f rest)
  from Cons.prems have nn: "0 \<le> s + (idx + 1)" by simp
  show ?case
  proof (cases "s + idx < 9")
    case True
    have "nat (s + (idx + 1)) = Suc (nat (s + idx))" "nat (s + idx) < 9"
      using True Cons.prems by simp_all
    then have m: "min (length (f # rest)) (9 - nat (s + idx)) = Suc (min (length rest) (9 - nat (s + (idx + 1))))"
      by simp
    have u: "[next_url e..<next_url e + Suc k] = next_url e # [Suc (next_url e)..<Suc (next_url e) + k]"
      for k by (simp add: upt_conv_Cons)
    have step: "placeFiles s (f # rest) idx (imgs, e) =
        placeFiles s rest (idx + 1)
          (array_set imgs (s + idx) \<lparr>id_slot = s + idx, file_slot = Some f, preview = Some (next_url e)\<rparr>,
           e\<lparr>live_urls := live_urls e @ [next_url e], next_url := Suc (next_url e)\<rparr>)"
      using True by (simp add: createObjectURL_def Let_def)
    show ?thesis
      unfolding step m u Cons.IH [OF nn] by simp
  next
    case False
    then show ?thesis using Cons.IH [OF nn] by (simp add: Let_def)
  qed
qed

lemma placeFiles_length:
  "length (fst (placeFiles s fs idx (imgs, e))) = length imgs"
  by (induction fs arbitrary: idx imgs e)
     (auto simp: Let_def createObjectURL_def array_set_def)

lemma placeFiles_nth:
  "length imgs = 9 \<Longrightarrow> 0 \<le> s + idx \<Longrightarrow> i < 9 \<Longrightarrow>
   fst (placeFiles s fs idx (imgs, e)) ! i =
     (if nat (s + idx) \<le> i \<and> i < nat (s + idx) + length fs
      then \<lparr>id_slot = int i, file_slot = Some (fs ! (i - nat (s + idx))),
            preview = Some (next_url e + (i - nat (s + idx)))\<rparr>
      else imgs ! i)"
proof (induction fs arbitrary: idx imgs e)
  case Nil
  then show ?case by auto
next
  case (Cons f rest)
  from Cons.prems have nn: "0 \<le> s + (idx + 1)" by simp
  have suc: "nat (s + (idx + 1)) = Suc (nat (s + idx))" using Cons.prems by simp
  show ?case
  proof (cases "s + idx < 9")
    case True
    let ?slot = "\<lparr>id_slot = s + idx, file_slot = Some f, preview = Some (next_url e)\<rparr>"
    let ?imgs = "array_set imgs (s + idx) ?slot"
    let ?e = "snd (createObjectURL e)"
    have len: "length ?imgs = 9" using Cons.prems by (simp add: array_set_def)
    have step: "placeFiles s (f # rest) idx (imgs, e) = placeFiles s rest (idx + 1) (?imgs, ?e)"
      using True by (simp add: Let_def createObjectURL_def)
    have nx: "next_url ?e = Suc (next_url e)" by (simp add: createObjectURL_def)
    have at: "?imgs ! i = (if i = nat (s + idx) then ?slot else imgs ! i)"
      using Cons.prems True by (auto simp: array_set_def)
    show ?thesis
      unfolding step Cons.IH [OF len nn Cons.prems(3)] suc nx at
      using Cons.prems True by (auto simp: nth_Cons' not_less)
  next
    case False
    have step: "placeFiles s (f # rest) idx (imgs, e) = placeFiles s rest (idx + 1) (imgs, e)"
      using False by (simp add: Let_def)
    show ?thesis
      unfolding step Cons.IH [OF Cons.prems(1) nn Cons.prems(3)]
      using Cons.prems False by auto
  qed
qed

section \<open>Outcomes of \<^verbatim>\<open>handleFileSelect\<close>\<close>

lemma placeFiles_toasts:
  "toasts (snd (placeFiles s fs idx (imgs, e))) = toasts e"
  by (induction fs arbitrary: idx imgs e) (auto simp: Let_def createObjectURL_def)

lemma toasts_show_toast: "toasts (show_toast x e) = toasts e @ [x]"
  by (simp add: show_toast_def)

lemma toasts_handleFileSelect:
  "toasts (handleFileSelect files slotId e) =
     (if files = [] then toasts e
      else if filter is_image files = [] then toasts e @ [fileFormatError]
      else if (case slotId of Some s \<Rightarrow> s
               | None \<Rightarrow> findIndex (\<lambda>img. file_slot img = None) (images e)) = -1
        then toasts e @ [gridFull]
      else toasts e @ [uploadSuccess (min (int (length (filter is_image files)))
             (9 - (case slotId of Some s \<Rightarrow> s
                   | None \<Rightarrow> findIndex (\<lambda>img. file_slot img = None) (images e))))])"
proof -
  have t: "toasts (case placeFiles s fs 0 (imgs, e) of (newImages, e') \<Rightarrow>
             show_toast x (e'\<lparr>images := newImages\<rparr>)) = toasts e @ [x]" for s fs imgs x
    using placeFiles_toasts [of s fs 0 imgs e]
    by (cases "placeFiles s fs 0 (imgs, e)") (simp add: toasts_show_toast)
  show ?thesis
    by (simp add: handleFileSelect_def Let_def t toasts_show_toast)
qed

lemma toast_distinct:
  "fileFormatError \<noteq> gridFull" "fileFormatError \<noteq> uploadSuccess n"
  "gridFull \<noteq> uploadSuccess n" "gridFull \<noteq> fileFormatError"
  "uploadSuccess n \<noteq> fileFormatError" "uploadSuccess n \<noteq> gridFull"
  by (simp_all add: fileFormatError_def gridFull_def uploadSuccess_def)

text \<open>
  Claim C10. Called with an empty file collection, \<^verbatim>\<open>handleFileSelect\<close> returns at once:
  the slots, the object URLs, the toasts and the DOM are all as before, whatever the target
  index; in particular no success toast and no format-error toast is shown.
\<close>

theorem C10_empty_selection_is_silent:
  "handleFileSelect [] slotId e = e"
  by (simp add: handleFileSelect_def)

text \<open>
  Claim C4. \<^verbatim>\<open>handleFileSelect\<close> ends with the format-error toast exactly when the
  collection is non-empty and none of its files has a media type beginning with
  \<^verbatim>\<open>image/\<close>; in that case the toast is the only change: the slots, the object URLs
  and the DOM are as before.
\<close>

theorem C4_invalid_input:
  "(toasts (handleFileSelect files slotId e) = toasts e @ [fileFormatError])
     = (files \<noteq> [] \<and> (\<forall>f\<in>set files. \<not> prefix ''image/'' (type f)))
   \<and> (files \<noteq> [] \<and> (\<forall>f\<in>set files. \<not> prefix ''image/'' (type f))
        \<longrightarrow> handleFileSelect files slotId e = e\<lparr>toasts := toasts e @ [fileFormatError]\<rparr>)"
proof -
  have none: "(filter is_image files = []) = (\<forall>f\<in>set files. \<not> prefix ''image/'' (type f))"
    by (simp add: filter_empty_conv is_image_def)
  have a: "(toasts (handleFileSelect files slotId e) = toasts e @ [fileFormatError])
     = (files \<noteq> [] \<and> filter is_image files = [])"
    unfolding toasts_handleFileSelect using toast_distinct by auto
  have b: "files \<noteq> [] \<Longrightarrow> filter is_image files = [] \<Longrightarrow>
      handleFileSelect files slotId e = e\<lparr>toasts := toasts e @ [fileFormatError]\<rparr>"
    by (simp add: handleFileSelect_def show_toast_def)
  show ?thesis using a b unfolding none by blast
qed

theorem C4_invalid_input_witness:
  "[plain ''notes''] \<noteq> [] \<and> \<not> prefix ''image/'' (type (plain ''notes''))
   \<and> toasts (handleFileSelect [plain ''notes''] None initial) = toasts initial @ [fileFormatError]
   \<and> handleFileSelect [plain ''notes''] None initial
       = initial\<lparr>toasts := toasts initial @ [fileFormatError]\<rparr>"
  using C4_invalid_input [of "[plain ''notes'']" None initial]
  by (simp add: plain_def)

text \<open>
  Claim C5. For a collection with at least one image file and a target that is either
  absent or a slot index from 0 to 8, \<^verbatim>\<open>handleFileSelect\<close> ends with the grid-full
  toast exactly when no target was given and no slot is empty; in that case the toast is
  the only change, so no slot is written and no object URL is created.
\<close>

theorem C5_capacity_exceeded:
  assumes "filter is_image files \<noteq> []"
    and "case slotId of None \<Rightarrow> True | Some t \<Rightarrow> 0 \<le> t \<and> t \<le> 8"
  shows "(toasts (handleFileSelect files slotId e) = toasts e @ [gridFull])
           = (slotId = None \<and> (\<forall>img\<in>set (images e). file_slot img \<noteq> None))
         \<and> (slotId = None \<and> (\<forall>img\<in>set (images e). file_slot img \<noteq> None)
              \<longrightarrow> handleFileSelect files slotId e = e\<lparr>toasts := toasts e @ [gridFull]\<rparr>)"
proof -
  from assms(1) have ne: "files \<noteq> []" by auto
  have full: "(findIndex (\<lambda>img. file_slot img = None) (images e) = -1)
      = (\<forall>img\<in>set (images e). file_slot img \<noteq> None)"
    unfolding findIndex_def by (rule findIndex_from_none) simp
  show ?thesis
  proof (cases slotId)
    case None
    have a: "(toasts (handleFileSelect files None e) = toasts e @ [gridFull])
        = (\<forall>img\<in>set (images e). file_slot img \<noteq> None)"
      unfolding toasts_handleFileSelect full [symmetric]
      using ne assms(1) toast_distinct by auto
    have b: "\<forall>img\<in>set (images e). file_slot img \<noteq> None \<Longrightarrow>
        handleFileSelect files None e = e\<lparr>toasts := toasts e @ [gridFull]\<rparr>"
      using ne assms(1) full by (simp add: handleFileSelect_def show_toast_def)
    show ?thesis using a b None by blast
  next
    case (Some t)
    with assms(2) have "t \<noteq> -1" by auto
    then have "toasts (handleFileSelect files (Some t) e) \<noteq> toasts e @ [gridFull]"
      unfolding toasts_handleFileSelect using ne assms(1) toast_distinct by auto
    then show ?thesis using Some by simp
  qed
qed

lemma initial_images_eq:
  "initial_images = [empty_slot 0, empty_slot 1, empty_slot 2, empty_slot 3, empty_slot 4,
     empty_slot 5, empty_slot 6, empty_slot 7, empty_slot 8]"
  by (simp add: initial_images_def upt_rec)

lemma length_initial_images: "length initial_images = 9"
  by (simp add: initial_images_def)

section \<open>Placement\<close>

lemma handleFileSelect_places:
  assumes len: "length (images e) = 9"
    and ne: "filter is_image files \<noteq> []"
    and s: "(case slotId of Some t \<Rightarrow> t
             | None \<Rightarrow> findIndex (\<lambda>img. file_slot img = None) (images e)) = s"
    and s0: "0 \<le> s"
  shows "length (images (handleFileSelect files slotId e)) = 9"
    and "i < 9 \<Longrightarrow> images (handleFileSelect files slotId e) ! i =
          (if nat s \<le> i \<and> i < nat s + length (filter is_image files)
           then \<lparr>id_slot = int i, file_slot = Some (filter is_image files ! (i - nat s)),
                 preview = Some (next_url e + (i - nat s))\<rparr>
           else images e ! i)"
    and "next_url (handleFileSelect files slotId e)
          = next_url e + min (length (filter is_image files)) (9 - nat s)"
    and "live_urls (handleFileSelect files slotId e)
          = live_urls e @ [next_url e..<next_url e + min (length (filter is_image files)) (9 - nat s)]"
    and "revoked (handleFileSelect files slotId e) = revoked e"
proof -
  let ?fs = "filter is_image files"
  obtain newImages e' where p: "placeFiles s ?fs 0 (images e, e) = (newImages, e')"
    by (cases "placeFiles s ?fs 0 (images e, e)")
  from ne have fne: "files \<noteq> []" by auto
  from s0 have s1: "s \<noteq> -1" by simp
  have h: "handleFileSelect files slotId e =
      show_toast (uploadSuccess (min (int (length ?fs)) (9 - s))) (e'\<lparr>images := newImages\<rparr>)"
    using fne ne s s1 p by (simp add: handleFileSelect_def Let_def)
  have s00: "0 \<le> s + 0" using s0 by simp
  have n: "newImages = fst (placeFiles s ?fs 0 (images e, e))" using p by simp
  have e': "e' = snd (placeFiles s ?fs 0 (images e, e))" using p by simp
  show "length (images (handleFileSelect files slotId e)) = 9"
    unfolding h n using len by (simp add: show_toast_def placeFiles_length)
  show "images (handleFileSelect files slotId e) ! i =
          (if nat s \<le> i \<and> i < nat s + length ?fs
           then \<lparr>id_slot = int i, file_slot = Some (?fs ! (i - nat s)),
                 preview = Some (next_url e + (i - nat s))\<rparr>
           else images e ! i)" if "i < 9"
    unfolding h n using placeFiles_nth [OF len s00 that, of ?fs e]
    by (simp add: show_toast_def)
  show "next_url (handleFileSelect files slotId e) = next_url e + min (length ?fs) (9 - nat s)"
    unfolding h e' placeFiles_env [OF s00] by (simp add: show_toast_def)
  show "live_urls (handleFileSelect files slotId e)
          = live_urls e @ [next_url e..<next_url e + min (length ?fs) (9 - nat s)]"
    unfolding h e' placeFiles_env [OF s00] by (simp add: show_toast_def)
  show "revoked (handleFileSelect files slotId e) = revoked e"
    unfolding h e' placeFiles_env [OF s00] by (simp add: show_toast_def)
qed

text \<open>
  Claim C6. With an explicit target index \<open>t\<close> from 0 to 8 and at least one image file,
  \<^verbatim>\<open>handleFileSelect\<close> writes the image files in order to the slots \<open>t\<close>, \<open>t + 1\<close>, ...
  and stops after slot 8: the store keeps its nine slots, every slot below \<open>t\<close> and every
  slot past the last file keeps its content, one object URL is created per file placed, the
  files that would land beyond slot 8 get none, and the only toast is the upload toast.
\<close>

theorem C6_explicit_target:
  assumes "length (images e) = 9" and "0 \<le> t" and "t \<le> 8"
    and "filter is_image files \<noteq> []"
  shows "length (images (handleFileSelect files (Some t) e)) = 9
    \<and> (\<forall>i<9. images (handleFileSelect files (Some t) e) ! i =
          (if nat t \<le> i \<and> i < nat t + length (filter is_image files)
           then \<lparr>id_slot = int i, file_slot = Some (filter is_image files ! (i - nat t)),
                 preview = Some (next_url e + (i - nat t))\<rparr>
           else images e ! i))
    \<and> next_url (handleFileSelect files (Some t) e)
        = next_url e + min (length (filter is_image files)) (9 - nat t)
    \<and> toasts (handleFileSelect files (Some t) e)
        = toasts e @ [uploadSuccess (min (int (length (filter is_image files))) (9 - t))]"
proof -
  have s: "(case Some t of Some t \<Rightarrow> t
            | None \<Rightarrow> findIndex (\<lambda>img. file_slot img = None) (images e)) = t" by simp
  note p = handleFileSelect_places [OF assms(1) assms(4) s assms(2)]
  from assms(4) have fne: "files \<noteq> []" by auto
  have t1: "t \<noteq> -1" using assms(2) by simp
  have ts: "toasts (handleFileSelect files (Some t) e)
        = toasts e @ [uploadSuccess (min (int (length (filter is_image files))) (9 - t))]"
    unfolding toasts_handleFileSelect using fne assms(4) t1 by simp
  show ?thesis using p(1) p(2) p(3) ts by blast
qed

theorem C6_explicit_target_witness:
  "length (images initial) = 9 \<and> (0::int) \<le> 7 \<and> (7::int) \<le> 8
   \<and> filter is_image [png ''a'', plain ''n'', png ''b'', png ''c''] \<noteq> []
   \<and> images (handleFileSelect [png ''a'', plain ''n'', png ''b'', png ''c''] (Some 7) initial) ! 6
       = empty_slot 6
   \<and> images (handleFileSelect [png ''a'', plain ''n'', png ''b'', png ''c''] (Some 7) initial) ! 7
       = \<lparr>id_slot = 7, file_slot = Some (png ''a''), preview = Some 0\<rparr>
   \<and> images (handleFileSelect [png ''a'', plain ''n'', png ''b'', png ''c''] (Some 7) initial) ! 8
       = \<lparr>id_slot = 8, file_slot = Some (png ''b''), preview = Some 1\<rparr>
   \<and> length (images (handleFileSelect [png ''a'', plain ''n'', png ''b'', png ''c''] (Some 7) initial)) = 9
   \<and> next_url (handleFileSelect [png ''a'', plain ''n'', png ''b'', png ''c''] (Some 7) initial) = 2
   \<and> toasts (handleFileSelect [png ''a'', plain ''n'', png ''b'', png ''c''] (Some 7) initial)
       = [uploadSuccess 2]"
  using C6_explicit_target [of initial 7 "[png ''a'', plain ''n'', png ''b'', png ''c'']"]
  by (simp add: initial_def initial_images_eq png_def plain_def is_image_def)


text \<open>The state of claim C5 at a full grid.\<close>

theorem C5_capacity_exceeded_witness:
  "filter is_image [png ''q''] \<noteq> []
   \<and> list_all (\<lambda>img. file_slot img \<noteq> None) (images full_store)
   \<and> toasts (handleFileSelect [png ''q''] None full_store) = toasts full_store @ [gridFull]
   \<and> handleFileSelect [png ''q''] None full_store
       = full_store\<lparr>toasts := toasts full_store @ [gridFull]\<rparr>"
proof -
  have f: "filter is_image [png ''q''] \<noteq> []"
    by (simp add: png_def is_image_def)
  have "images full_store =
      map (\<lambda>i. \<lparr>id_slot = int i, file_slot = Some (png ''p''), preview = Some i\<rparr>) [0..<9]"
    by code_simp
  then have full: "\<forall>img\<in>set (images full_store). file_slot img \<noteq> None"
    by simp
  show ?thesis
    using C5_capacity_exceeded [of "[png ''q'']" None full_store] f full
    by (simp add: list_all_iff)
qed

text \<open>
  Claim C1. At most one preview handle is live per filled slot, the old one being revoked
  when \<^verbatim>\<open>handleFileSelect\<close> writes a file into a filled slot. The code does not do this:
  after one image is dropped on slot 0 and then another one on the same slot, the slot
  holds URL 1, URL 0 is still live and nothing was ever revoked.
\<close>

theorem C1_replaced_preview_stays_live:
  "preview (images one_in_first ! 0) = Some 0 \<and> live_urls one_in_first = [0]
   \<and> preview (images first_replaced ! 0) = Some 1
   \<and> live_urls first_replaced = [0, 1] \<and> revoked first_replaced = []"
  by code_simp

text \<open>
  Claim C2, as stated: an insert without a target fills the first \<open>k\<close> empty slots and
  leaves the filled ones alone. It fails where a filled slot follows the first empty one:
  with slot 0 empty, slot 1 filled and slot 2 empty, an insert of two images overwrites
  slot 1 and leaves slot 2 empty.
\<close>

theorem C2_filled_slot_overwritten:
  "file_slot (images gap_at_first ! 0) = None
   \<and> file_slot (images gap_at_first ! 1) = Some (png ''b'')
   \<and> file_slot (images gap_at_first ! 2) = None
   \<and> images gap_refilled ! 1 \<noteq> images gap_at_first ! 1
   \<and> file_slot (images gap_refilled ! 1) = Some (png ''d'')
   \<and> file_slot (images gap_refilled ! 2) = None"
  by code_simp

text \<open>
  Claim C2, amended. With no target index, at least one image file and at least one empty
  slot, \<^verbatim>\<open>handleFileSelect\<close> starts at the first empty slot \<open>s\<close> and writes the image
  files in order to the consecutive slots \<open>s\<close>, \<open>s + 1\<close>, ... up to slot 8, whatever those
  slots held; every other slot keeps its content, the files beyond slot 8 are dropped, and
  the only toast is the upload toast.
\<close>

theorem C2_auto_fill_sequential:
  fixes e :: PhotoGrid and files :: "File list"
  defines "s \<equiv> findIndex (\<lambda>img. file_slot img = None) (images e)"
    and "e' \<equiv> handleFileSelect files None e"
  assumes "length (images e) = 9"
    and "filter is_image files \<noteq> []"
    and "\<exists>img\<in>set (images e). file_slot img = None"
  shows "0 \<le> s \<and> s \<le> 8
    \<and> file_slot (images e ! nat s) = None
    \<and> (\<forall>j<nat s. file_slot (images e ! j) \<noteq> None)
    \<and> length (images e') = 9
    \<and> (\<forall>i<9. images e' ! i =
          (if nat s \<le> i \<and> i < nat s + length (filter is_image files)
           then \<lparr>id_slot = int i, file_slot = Some (filter is_image files ! (i - nat s)),
                 preview = Some (next_url e + (i - nat s))\<rparr>
           else images e ! i))
    \<and> next_url e' = next_url e + min (length (filter is_image files)) (9 - nat s)
    \<and> toasts e' = toasts e @ [uploadSuccess (min (int (length (filter is_image files))) (9 - s))]"
proof -
  let ?P = "\<lambda>img. file_slot img = None"
  have z: "(0::int) \<le> 0" by simp
  have s1: "s \<noteq> -1"
    unfolding s_def findIndex_def findIndex_from_none [OF z] using assms(5) by simp
  from findIndex_from_range [of ?P "images e" 0] s1 assms(3)
  have rng: "0 \<le> s" "s \<le> 8" unfolding s_def findIndex_def by auto
  from findIndex_from_first [OF z, of ?P "images e"] s1
  have first: "file_slot (images e ! nat s) = None"
    "\<forall>j<nat s. file_slot (images e ! j) \<noteq> None"
    unfolding s_def findIndex_def by auto
  have c: "(case None of Some t \<Rightarrow> t | None \<Rightarrow> findIndex ?P (images e)) = s"
    unfolding s_def by simp
  note p = handleFileSelect_places [OF assms(3) assms(4) c rng(1)]
  from assms(4) have fne: "files \<noteq> []" by auto
  have ts: "toasts e' = toasts e @ [uploadSuccess (min (int (length (filter is_image files))) (9 - s))]"
    unfolding e'_def toasts_handleFileSelect using fne assms(4) s1 by (simp add: s_def)
  show ?thesis using rng first p(1) p(2) p(3) ts unfolding e'_def by blast
qed

lemma gap_at_first_images:
  "images gap_at_first = initial_images[1 := \<lparr>id_slot = 1, file_slot = Some (png ''b''), preview = Some 1\<rparr>]"
  by code_simp

theorem C2_auto_fill_sequential_witness:
  "length (images gap_at_first) = 9
   \<and> filter is_image [png ''c'', png ''d''] \<noteq> []
   \<and> (\<exists>img\<in>set (images gap_at_first). file_slot img = None)
   \<and> findIndex (\<lambda>img. file_slot img = None) (images gap_at_first) = 0
   \<and> images (handleFileSelect [png ''c'', png ''d''] None gap_at_first) ! 0
       = \<lparr>id_slot = 0, file_slot = Some (png ''c''), preview = Some (next_url gap_at_first)\<rparr>
   \<and> images (handleFileSelect [png ''c'', png ''d''] None gap_at_first) ! 1
       = \<lparr>id_slot = 1, file_slot = Some (png ''d''), preview = Some (next_url gap_at_first + 1)\<rparr>
   \<and> images (handleFileSelect [png ''c'', png ''d''] None gap_at_first) ! 2 = empty_slot 2"
proof -
  have i: "images gap_at_first =
      [empty_slot 0, \<lparr>id_slot = 1, file_slot = Some (png ''b''), preview = Some 1\<rparr>,
       empty_slot 2, empty_slot 3, empty_slot 4, empty_slot 5, empty_slot 6, empty_slot 7,
       empty_slot 8]"
    unfolding gap_at_first_images initial_images_eq by simp
  have f: "findIndex (\<lambda>img. file_slot img = None) (images gap_at_first) = 0"
    unfolding i by (simp add: findIndex_def empty_slot_def)
  show ?thesis
    using C2_auto_fill_sequential [of gap_at_first "[png ''c'', png ''d'']"]
    unfolding f
    by (simp add: i png_def is_image_def empty_slot_def)
qed

section \<open>Removal and reset\<close>

lemma wf_store_nth:
  assumes "wf_store imgs" and "i < 9"
  shows "id_slot (imgs ! i) = int i"
    and "(file_slot (imgs ! i) = None) = (preview (imgs ! i) = None)"
proof -
  from assms have len: "length imgs = 9" and i: "i < length (enumerate 0 imgs)"
    by (simp_all add: wf_store_def)
  from assms(1) have "wf_slot (enumerate 0 imgs ! i)"
    using i unfolding wf_store_def list_all_length by blast
  then have "wf_slot (i, imgs ! i)"
    using assms(2) len by (simp add: nth_enumerate_eq)
  then show "id_slot (imgs ! i) = int i"
    and "(file_slot (imgs ! i) = None) = (preview (imgs ! i) = None)"
    by (simp_all add: wf_slot_def)
qed

lemma wf_store_empty_slot:
  assumes "wf_store imgs" and "i < 9" and "file_slot (imgs ! i) = None"
  shows "imgs ! i = empty_slot (int i)"
  using wf_store_nth [OF assms(1) assms(2)] assms(3)
  by (cases "imgs ! i") (simp add: empty_slot_def)

lemma removeImage_in_range:
  assumes "0 \<le> i" and "i < int (length (images e))"
  shows "removeImage i e =
     Inr ((case preview (images e ! nat i) of Some p \<Rightarrow> revokeObjectURL p e | None \<Rightarrow> e)
          \<lparr>images := (images e)[nat i := empty_slot i]\<rparr>)"
  using assms by (simp add: removeImage_def array_set_def Let_def)

text \<open>
  Claim C7. On a well-formed store and a slot index from 0 to 8, \<^verbatim>\<open>removeImage\<close> raises no
  error. On a filled slot it revokes exactly the one preview the slot holds and leaves the
  slot empty; on an empty slot it changes nothing at all and revokes nothing; so a second
  call in a row returns the state of the first unchanged, and no URL is revoked twice.
\<close>

theorem C7_remove_slot:
  assumes "wf_store (images e)" and "0 \<le> i" and "i \<le> 8"
  shows "(file_slot (images e ! nat i) \<noteq> None \<longrightarrow>
            (\<exists>h. preview (images e ! nat i) = Some h
               \<and> removeImage i e =
                   Inr (e\<lparr>images := (images e)[nat i := empty_slot i],
                          live_urls := removeAll h (live_urls e),
                          revoked := revoked e @ [h]\<rparr>)))
       \<and> (file_slot (images e ! nat i) = None \<longrightarrow> removeImage i e = Inr e)
       \<and> (\<exists>e1. removeImage i e = Inr e1 \<and> images e1 ! nat i = empty_slot i
               \<and> removeImage i e1 = Inr e1)"
proof -
  from assms(1) have len: "length (images e) = 9" by (simp add: wf_store_def)
  from assms(2,3) have n: "nat i < 9" "int (nat i) = i" by simp_all
  have rng: "i < int (length (images e))" using len assms(3) by simp
  note r = removeImage_in_range [OF assms(2) rng]
  have filled: "\<exists>h. preview (images e ! nat i) = Some h
      \<and> removeImage i e =
          Inr (e\<lparr>images := (images e)[nat i := empty_slot i],
                 live_urls := removeAll h (live_urls e), revoked := revoked e @ [h]\<rparr>)"
    if "file_slot (images e ! nat i) \<noteq> None"
  proof -
    from that wf_store_nth(2) [OF assms(1) n(1)]
    obtain h where h: "preview (images e ! nat i) = Some h" by auto
    show ?thesis unfolding r h by (simp add: revokeObjectURL_def)
  qed
  have empty: "removeImage i e = Inr e" if "file_slot (images e ! nat i) = None"
  proof -
    from that wf_store_nth(2) [OF assms(1) n(1)]
    have p: "preview (images e ! nat i) = None" by simp
    from wf_store_empty_slot [OF assms(1) n(1) that] n(2)
    have "images e ! nat i = empty_slot i" by simp
    then have "(images e)[nat i := empty_slot i] = images e"
      using list_update_id [of "images e" "nat i"] by simp
    then show ?thesis unfolding r p by simp
  qed
  have twice: "\<exists>e1. removeImage i e = Inr e1 \<and> images e1 ! nat i = empty_slot i
      \<and> removeImage i e1 = Inr e1"
  proof -
    let ?e1 = "(case preview (images e ! nat i) of Some p \<Rightarrow> revokeObjectURL p e | None \<Rightarrow> e)
          \<lparr>images := (images e)[nat i := empty_slot i]\<rparr>"
    have i1: "images ?e1 = (images e)[nat i := empty_slot i]" by simp
    have at: "images ?e1 ! nat i = empty_slot i" using len n(1) by simp
    have rng1: "i < int (length (images ?e1))" using len assms(3) by simp
    have "removeImage i ?e1 = Inr ?e1"
      unfolding removeImage_in_range [OF assms(2) rng1] at
      by (simp add: empty_slot_def)
    with r at show ?thesis by blast
  qed
  from filled empty twice show ?thesis by blast
qed

lemma wf_one_in_first: "wf_store (images one_in_first)"
  by code_simp

lemma wf_initial: "wf_store (images initial)"
  by code_simp

theorem C7_remove_slot_witness:
  "wf_store (images one_in_first) \<and> file_slot (images one_in_first ! 0) = Some (png ''a'')
   \<and> preview (images one_in_first ! 0) = Some 0
   \<and> removeImage 0 one_in_first =
        Inr (one_in_first\<lparr>images := (images one_in_first)[0 := empty_slot 0],
               live_urls := removeAll 0 (live_urls one_in_first),
               revoked := revoked one_in_first @ [0]\<rparr>)
   \<and> wf_store (images initial) \<and> file_slot (images initial ! 3) = None
   \<and> removeImage 3 initial = Inr initial"
proof -
  have a: "file_slot (images one_in_first ! 0) = Some (png ''a'')"
    "preview (images one_in_first ! 0) = Some 0" by code_simp+
  have b: "file_slot (images initial ! 3) = None" by code_simp
  show ?thesis
    using C7_remove_slot [OF wf_one_in_first, of 0] C7_remove_slot [OF wf_initial, of 3]
      wf_one_in_first wf_initial a b
    by simp
qed

text \<open>What \<^verbatim>\<open>resetGrid\<close> does on its own: it revokes the previews the slots hold.\<close>

lemma revokeAll_result:
  "revokeAll imgs e =
     e\<lparr>live_urls := filter (\<lambda>u. u \<notin> set (List.map_filter preview imgs)) (live_urls e),
       revoked := revoked e @ List.map_filter preview imgs\<rparr>"
proof (induction imgs arbitrary: e)
  case Nil
  then show ?case by (simp add: List.map_filter_simps)
next
  case (Cons img rest)
  show ?case
  proof (cases "preview img")
    case None
    then show ?thesis using Cons.IH [of e] by (simp add: List.map_filter_simps)
  next
    case (Some p)
    have "filter (\<lambda>u. u \<notin> set (List.map_filter preview rest)) (removeAll p xs)
        = filter (\<lambda>u. u \<noteq> p \<and> u \<notin> set (List.map_filter preview rest)) xs" for xs
      by (induction xs) auto
    then show ?thesis
      using Some Cons.IH [of "revokeObjectURL p e"]
      by (simp add: List.map_filter_simps revokeObjectURL_def)
  qed
qed

lemma resetGrid_result:
  "resetGrid e =
     e\<lparr>images := initial_images,
       live_urls := filter (\<lambda>u. u \<notin> set (List.map_filter preview (images e))) (live_urls e),
       revoked := revoked e @ List.map_filter preview (images e),
       toasts := toasts e @ [gridReset]\<rparr>"
  by (simp add: resetGrid_def revokeAll_result show_toast_def)

text \<open>
  Claim C8. After any sequence of inserts and removals \<^verbatim>\<open>resetGrid\<close> returns the store to
  nine empty slots, shows the reset toast and revokes every live preview exactly once. The
  last part fails after a replacement: with URL 0 and URL 1 live and slot 0 holding URL 1,
  the reset revokes URL 1 only, and URL 0 stays live.
\<close>

theorem C8_reset_leaves_replaced_preview_live:
  "live_urls first_replaced = [0, 1] \<and> revoked first_replaced = []
   \<and> images after_reset = initial_images
   \<and> revoked after_reset = [1] \<and> live_urls after_reset = [0]
   \<and> toasts after_reset = toasts first_replaced @ [gridReset]"
  by code_simp

section \<open>Export\<close>

lemma toast_distinct_download: "downloadSuccess \<noteq> noImages"
  by (simp add: downloadSuccess_def noImages_def)

lemma downloadGrid_empty:
  "filter (\<lambda>img. preview img \<noteq> None) (images e) = [] \<Longrightarrow>
   downloadGrid b e = e\<lparr>toasts := toasts e @ [noImages]\<rparr>"
  by (simp add: downloadGrid_def show_toast_def)

lemma downloadGrid_toasts:
  "filter (\<lambda>img. preview img \<noteq> None) (images e) \<noteq> [] \<Longrightarrow>
   toasts (downloadGrid b e) = toasts e \<or> toasts (downloadGrid b e) = toasts e @ [downloadSuccess]"
  by (simp add: downloadGrid_def Let_def show_toast_def createObjectURL_def revokeObjectURL_def)

lemma downloadGrid_dom_ops:
  "filter (\<lambda>img. preview img \<noteq> None) (images e) \<noteq> [] \<Longrightarrow>
   prefix (dom_ops e @ [CreateCanvas, GetContext]) (dom_ops (downloadGrid b e))"
  by (simp add: downloadGrid_def Let_def show_toast_def createObjectURL_def revokeObjectURL_def)

lemma no_preview_iff_all_empty:
  assumes "wf_store imgs"
  shows "(filter (\<lambda>img. preview img \<noteq> None) imgs = []) = (\<forall>i<9. file_slot (imgs ! i) = None)"
proof -
  from assms have len: "length imgs = 9" by (simp add: wf_store_def)
  have "(filter (\<lambda>img. preview img \<noteq> None) imgs = []) = (\<forall>i<9. preview (imgs ! i) = None)"
    unfolding filter_empty_conv all_set_conv_all_nth len by simp
  also have "\<dots> = (\<forall>i<9. file_slot (imgs ! i) = None)"
    using wf_store_nth(2) [OF assms] by blast
  finally show ?thesis .
qed

text \<open>
  Claim C9. On a well-formed store \<^verbatim>\<open>downloadGrid\<close> ends with the no-images toast exactly
  when all nine slots are empty; in that case the toast is the only change, so no canvas is
  created, nothing is filled and no image load is started. With a filled slot the canvas
  is created.
\<close>

theorem C9_nothing_to_render:
  assumes "wf_store (images e)"
  shows "(toasts (downloadGrid b e) = toasts e @ [noImages])
           = (\<forall>i<9. file_slot (images e ! i) = None)
       \<and> ((\<forall>i<9. file_slot (images e ! i) = None)
            \<longrightarrow> downloadGrid b e = e\<lparr>toasts := toasts e @ [noImages]\<rparr>)
       \<and> (\<not> (\<forall>i<9. file_slot (images e ! i) = None)
            \<longrightarrow> prefix (dom_ops e @ [CreateCanvas, GetContext]) (dom_ops (downloadGrid b e)))"
proof (cases "filter (\<lambda>img. preview img \<noteq> None) (images e) = []")
  case True
  then have all: "\<forall>i<9. file_slot (images e ! i) = None"
    using no_preview_iff_all_empty [OF assms] by simp
  show ?thesis using downloadGrid_empty [OF True, of b] all by simp
next
  case False
  then have some: "\<not> (\<forall>i<9. file_slot (images e ! i) = None)"
    using no_preview_iff_all_empty [OF assms] by simp
  have "toasts (downloadGrid b e) \<noteq> toasts e @ [noImages]"
    using downloadGrid_toasts [OF False, of b] toast_distinct_download by auto
  then show ?thesis using some downloadGrid_dom_ops [OF False, of b] by blast
qed

theorem C9_nothing_to_render_witness:
  "wf_store (images initial)
   \<and> file_slot (images initial ! 0) = None
   \<and> toasts (downloadGrid loads_all initial) = toasts initial @ [noImages]
   \<and> dom_ops (downloadGrid loads_all initial) = dom_ops initial
   \<and> downloadGrid loads_all initial = initial\<lparr>toasts := toasts initial @ [noImages]\<rparr>
   \<and> wf_store (images one_in_first)
   \<and> file_slot (images one_in_first ! 0) = Some (png ''a'')
   \<and> toasts (downloadGrid loads_all one_in_first) \<noteq> toasts one_in_first @ [noImages]
   \<and> prefix (dom_ops one_in_first @ [CreateCanvas, GetContext])
        (dom_ops (downloadGrid loads_all one_in_first))"
proof -
  have a: "\<forall>i<9. file_slot (images initial ! i) = None"
    by (simp add: initial_def initial_images_def empty_slot_def)
  have b: "file_slot (images one_in_first ! 0) = Some (png ''a'')" by code_simp
  have c: "\<not> (\<forall>i<9. file_slot (images one_in_first ! i) = None)"
  proof
    assume "\<forall>i<9. file_slot (images one_in_first ! i) = None"
    then have "file_slot (images one_in_first ! 0) = None" by simp
    with b show False by simp
  qed
  from a have a0: "file_slot (images initial ! 0) = None" by simp
  show ?thesis
    using C9_nothing_to_render [OF wf_initial, of loads_all]
      C9_nothing_to_render [OF wf_one_in_first, of loads_all]
      wf_initial wf_one_in_first a a0 b c
    by simp
qed

section \<open>Cover fit\<close>

lemma sublist_concat_map_nth:
  assumes "i < length xs"
  shows "sublist (g (xs ! i)) (concat (map g xs))"
proof -
  have "xs = take i xs @ xs ! i # drop (Suc i) xs"
    using assms by (rule id_take_nth_drop)
  then have "concat (map g xs)
      = concat (map g (take i xs @ xs ! i # drop (Suc i) xs))" by simp
  also have "\<dots> = concat (map g (take i xs)) @ g (xs ! i) @ concat (map g (drop (Suc i) xs))"
    by simp
  finally show ?thesis unfolding sublist_def by blast
qed

lemma downloadGrid_draws:
  assumes "has_context b" and "filter (\<lambda>img. preview img \<noteq> None) (images e) \<noteq> []"
  shows "sublist
     (concat (map (\<lambda>c. case c of None \<Rightarrow> [] | Some ops \<Rightarrow> ops)
        (map (cell_loaded b) (enumerate 0 (images e)))))
     (dom_ops (downloadGrid b e))"
proof -
  let ?d = "concat (map (\<lambda>c. case c of None \<Rightarrow> [] | Some ops \<Rightarrow> ops)
        (map (cell_loaded b) (enumerate 0 (images e))))"
  let ?pre = "dom_ops e @ [CreateCanvas, GetContext]
      @ [SetWidth 920, SetHeight 920, FillStyle ''#ffffff'', FillRect 0 0 920 920]
      @ concat (map cell_started (images e))"
  have "\<exists>ss. dom_ops (downloadGrid b e) = ?pre @ ?d @ ss"
    using assms
    by (simp add: downloadGrid_def Let_def show_toast_def createObjectURL_def
        revokeObjectURL_def gridSize_def cellSize_def gap_def)
  then show ?thesis unfolding sublist_def by blast
qed


text \<open>
  Claim C3. For a filled slot whose image loads with a positive natural width and height,
  the cover-fit transform is: with an aspect ratio above 1 the draw height is 300, the draw
  width 300 times the ratio and the horizontal offset minus half of the excess width; with
  a ratio of at most 1 the draw width is 300, the draw height 300 divided by the ratio and
  the vertical offset minus half of the excess height. A 2:1 source gets height 300, width
  600 and horizontal offset -150. The image is drawn after the path is set to the 300 by
  300 rectangle of the cell and clipped to it, and these operations are part of what
  \<^verbatim>\<open>downloadGrid\<close> issues once a 2d context is available.
\<close>

theorem C3_cover_fit:
  assumes "0 < w" and "0 < h"
    and "has_context b" and "i < length (images e)"
    and "preview (images e ! i) = Some u" and "natural_size b u = Some (w, h)"
  shows "\<exists>f. cover_fit w h = Some f
     \<and> (real w / real h > 1 \<longrightarrow>
           drawHeight f = 300 \<and> drawWidth f = 300 * (real w / real h)
           \<and> offsetX f = - (drawWidth f - 300) / 2 \<and> offsetY f = 0)
     \<and> (real w / real h \<le> 1 \<longrightarrow>
           drawWidth f = 300 \<and> drawHeight f = 300 / (real w / real h)
           \<and> offsetY f = - (drawHeight f - 300) / 2 \<and> offsetX f = 0)
     \<and> (w = 2 * h \<longrightarrow>
           drawHeight f = 300 \<and> drawWidth f = 600 \<and> offsetX f = - 150 \<and> offsetY f = 0)
     \<and> draw_cell i u (w, h) =
          [Save, BeginPath,
           Rect (real ((i mod 3) * 310)) (real ((i div 3) * 310)) 300 300, Clip,
           DrawImage u (real ((i mod 3) * 310) + offsetX f) (real ((i div 3) * 310) + offsetY f)
             (drawWidth f) (drawHeight f),
           Restore]
     \<and> sublist (draw_cell i u (w, h)) (dom_ops (downloadGrid b e))"
proof -
  define a where "a = real w / real h"
  define f where "f = (if a > 1
      then \<lparr>drawWidth = 300 * a, drawHeight = 300,
            offsetX = - (300 * a - 300) / 2, offsetY = 0\<rparr>
      else \<lparr>drawWidth = 300, drawHeight = 300 / a,
            offsetX = 0, offsetY = - (300 / a - 300) / 2\<rparr>)"
  have cf: "cover_fit w h = Some f"
    using assms(1,2) by (simp add: cover_fit_def cellSize_def Let_def f_def a_def)
  have wide: "a > 1 \<longrightarrow>
      drawHeight f = 300 \<and> drawWidth f = 300 * a
      \<and> offsetX f = - (drawWidth f - 300) / 2 \<and> offsetY f = 0"
    by (simp add: f_def)
  have tall: "a \<le> 1 \<longrightarrow>
      drawWidth f = 300 \<and> drawHeight f = 300 / a
      \<and> offsetY f = - (drawHeight f - 300) / 2 \<and> offsetX f = 0"
    by (simp add: f_def)
  have two: "w = 2 * h \<longrightarrow>
      drawHeight f = 300 \<and> drawWidth f = 600 \<and> offsetX f = - 150 \<and> offsetY f = 0"
  proof
    assume "w = 2 * h"
    then have "a = 2" using assms(2) by (simp add: a_def)
    then show "drawHeight f = 300 \<and> drawWidth f = 600 \<and> offsetX f = - 150 \<and> offsetY f = 0"
      by (simp add: f_def)
  qed
  have dc: "draw_cell i u (w, h) =
      [Save, BeginPath,
       Rect (real ((i mod 3) * 310)) (real ((i div 3) * 310)) 300 300, Clip,
       DrawImage u (real ((i mod 3) * 310) + offsetX f) (real ((i div 3) * 310) + offsetY f)
         (drawWidth f) (drawHeight f),
       Restore]"
    unfolding draw_cell_def Let_def fst_conv snd_conv cf
    by (simp add: gridSize_def cellSize_def gap_def)
  have ne: "filter (\<lambda>img. preview img \<noteq> None) (images e) \<noteq> []"
  proof -
    have "images e ! i \<in> set (images e)" using assms(4) by simp
    moreover have "preview (images e ! i) \<noteq> None" using assms(5) by simp
    ultimately show ?thesis unfolding filter_empty_conv by blast
  qed
  have cell: "(case cell_loaded b (enumerate 0 (images e) ! i) of None \<Rightarrow> [] | Some ops \<Rightarrow> ops)
      = draw_cell i u (w, h)"
    using assms(4,5,6) by (simp add: nth_enumerate_eq cell_loaded_def)
  have ilen: "i < length (enumerate 0 (images e))"
    using assms(4) by simp
  have "sublist (draw_cell i u (w, h))
      (concat (map (\<lambda>p. case cell_loaded b p of None \<Rightarrow> [] | Some ops \<Rightarrow> ops)
         (enumerate 0 (images e))))"
    using sublist_concat_map_nth [OF ilen,
        of "\<lambda>p. case cell_loaded b p of None \<Rightarrow> [] | Some ops \<Rightarrow> ops"]
    unfolding cell .
  then have "sublist (draw_cell i u (w, h))
      (concat (map (\<lambda>c. case c of None \<Rightarrow> [] | Some ops \<Rightarrow> ops)
         (map (cell_loaded b) (enumerate 0 (images e)))))"
    by (simp add: comp_def)
  then have sub: "sublist (draw_cell i u (w, h)) (dom_ops (downloadGrid b e))"
    using downloadGrid_draws [OF assms(3) ne] by (rule sublist_order.order_trans)
  show ?thesis
    using cf wide tall two dc sub unfolding a_def
    by (intro exI [of _ f] conjI)
qed


theorem C3_cover_fit_witness:
  "(0::nat) < 600 \<and> (0::nat) < 300 \<and> has_context loads_all
   \<and> preview (images one_in_first ! 0) = Some 0
   \<and> natural_size loads_all 0 = Some (600, 300)
   \<and> cover_fit 600 300 = Some \<lparr>drawWidth = 600, drawHeight = 300, offsetX = - 150, offsetY = 0\<rparr>
   \<and> draw_cell 0 0 (600, 300) =
        [Save, BeginPath, Rect 0 0 300 300, Clip, DrawImage 0 (- 150) 0 600 300, Restore]
   \<and> sublist [Save, BeginPath, Rect 0 0 300 300, Clip, DrawImage 0 (- 150) 0 600 300, Restore]
        (dom_ops (downloadGrid loads_all one_in_first))"
proof -
  have p: "preview (images one_in_first ! 0) = Some 0" by code_simp
  have l: "0 < length (images one_in_first)" by code_simp
  have n: "natural_size loads_all 0 = Some (600, 300)" "has_context loads_all"
    by (simp_all add: loads_all_def)
  have w: "(0::nat) < 600" "(0::nat) < 300" by simp_all
  from C3_cover_fit [OF w(1) w(2) n(2) l p n(1)]
  obtain f where f1: "cover_fit 600 300 = Some f"
    and f2: "(600::nat) = 2 * 300 \<longrightarrow>
        drawHeight f = 300 \<and> drawWidth f = 600 \<and> offsetX f = - 150 \<and> offsetY f = 0"
    and f3: "draw_cell 0 0 (600, 300) =
      [Save, BeginPath, Rect (real ((0 mod 3) * 310)) (real ((0 div 3) * 310)) 300 300, Clip,
       DrawImage 0 (real ((0 mod 3) * 310) + offsetX f) (real ((0 div 3) * 310) + offsetY f)
         (drawWidth f) (drawHeight f), Restore]"
    and f4: "sublist (draw_cell 0 0 (600, 300)) (dom_ops (downloadGrid loads_all one_in_first))"
    by (elim exE conjE) (rule that)
  from f2 have fields: "drawHeight f = 300" "drawWidth f = 600" "offsetX f = - 150" "offsetY f = 0"
    by simp_all
  have feq: "f = \<lparr>drawWidth = 600, drawHeight = 300, offsetX = - 150, offsetY = 0\<rparr>"
    using fields by (cases f) simp
  have d: "draw_cell 0 0 (600, 300) =
      [Save, BeginPath, Rect 0 0 300 300, Clip, DrawImage 0 (- 150) 0 600 300, Restore]"
    unfolding f3 fields by simp
  from f4 have s: "sublist [Save, BeginPath, Rect 0 0 300 300, Clip, DrawImage 0 (- 150) 0 600 300, Restore]
        (dom_ops (downloadGrid loads_all one_in_first))"
    unfolding d .
  from f1 have c: "cover_fit 600 300
      = Some \<lparr>drawWidth = 600, drawHeight = 300, offsetX = - 150, offsetY = 0\<rparr>"
    unfolding feq .
  show ?thesis
    using w n p c d s by (intro conjI)
qed

section \<open>The handlers keep the store well formed\<close>

lemma wf_storeI:
  assumes "length imgs = 9"
    and "\<And>i. i < 9 \<Longrightarrow> id_slot (imgs ! i) = int i"
    and "\<And>i. i < 9 \<Longrightarrow> (file_slot (imgs ! i) = None) = (preview (imgs ! i) = None)"
  shows "wf_store imgs"
  unfolding wf_store_def list_all_length
  using assms by (simp add: nth_enumerate_eq wf_slot_def)

lemma wf_store_handleFileSelect:
  assumes wf: "wf_store (images e)"
    and tgt: "case slotId of None \<Rightarrow> True | Some t \<Rightarrow> 0 \<le> t \<and> t \<le> 8"
  shows "wf_store (images (handleFileSelect files slotId e))"
proof -
  let ?s = "case slotId of Some t \<Rightarrow> t
            | None \<Rightarrow> findIndex (\<lambda>img. file_slot img = None) (images e)"
  from wf have len: "length (images e) = 9" by (simp add: wf_store_def)
  consider (none) "files = [] \<or> filter is_image files = [] \<or> ?s = -1"
    | (place) "filter is_image files \<noteq> []" "?s \<noteq> -1" by blast
  then show ?thesis
  proof cases
    case none
    then have "images (handleFileSelect files slotId e) = images e"
      by (auto simp: handleFileSelect_def Let_def show_toast_def)
    with wf show ?thesis by simp
  next
    case place
    have s0: "0 \<le> ?s"
    proof (cases slotId)
      case None
      with place(2) findIndex_from_range [of "\<lambda>img. file_slot img = None" "images e" 0]
      show ?thesis by (auto simp: findIndex_def)
    next
      case (Some t)
      with tgt show ?thesis by simp
    qed
    note p = handleFileSelect_places [OF len place(1) refl s0]
    show ?thesis
    proof (rule wf_storeI)
      show "length (images (handleFileSelect files slotId e)) = 9" by (rule p(1))
    next
      fix i :: nat assume i: "i < 9"
      show "id_slot (images (handleFileSelect files slotId e) ! i) = int i"
        unfolding p(2) [OF i] using wf_store_nth(1) [OF wf i] by simp
      show "(file_slot (images (handleFileSelect files slotId e) ! i) = None)
          = (preview (images (handleFileSelect files slotId e) ! i) = None)"
        unfolding p(2) [OF i] using wf_store_nth(2) [OF wf i] by simp
    qed
  qed
qed

lemma wf_store_removeImage:
  assumes wf: "wf_store (images e)" and r: "removeImage i e = Inr e'"
  shows "wf_store (images e')"
proof -
  from wf have len: "length (images e) = 9" by (simp add: wf_store_def)
  from r have rng: "0 \<le> i" "i < int (length (images e))"
    by (auto simp: removeImage_def Let_def split: if_splits)
  from r have im: "images e' = (images e)[nat i := empty_slot i]"
    unfolding removeImage_in_range [OF rng] by auto
  show ?thesis
  proof (rule wf_storeI)
    show "length (images e') = 9" unfolding im using len by simp
  next
    fix j :: nat assume j: "j < 9"
    show "id_slot (images e' ! j) = int j"
      unfolding im using wf_store_nth(1) [OF wf j] rng len j
      by (auto simp: nth_list_update empty_slot_def)
    show "(file_slot (images e' ! j) = None) = (preview (images e' ! j) = None)"
      unfolding im using wf_store_nth(2) [OF wf j] rng len j
      by (simp add: nth_list_update empty_slot_def)
  qed
qed

lemma wf_store_resetGrid: "wf_store (images (resetGrid e))"
  using wf_initial by (simp add: resetGrid_result initial_def)

end
